theory Spec2Isabelle
  imports Complex_Main "HOL-Library.Multiset"
begin

section \<open>Strings and dictionaries of the scraper\<close>

text \<open>
  A Python \<open>str\<close> is a sequence of Unicode code points, so it is modelled as a list of
  code-point numbers. Column names and dictionary keys are ASCII literals of the source
  and are written as HOL strings. A flight is the \<open>dict\<close> that
  \<open>extract_flight_data\<close> returns: a finite map from column name to text.
\<close>

type_synonym pystr = "nat list"

type_synonym flight = "string \<rightharpoonup> pystr"

definition ascii :: "string \<Rightarrow> pystr" where
  "ascii s = map of_char s"

definition NA :: pystr where
  "NA = ascii ''N/A''"

text \<open>\<open>d.get(k, default)\<close>\<close>

definition get :: "flight \<Rightarrow> string \<Rightarrow> pystr \<Rightarrow> pystr" where
  "get d k dflt = (case d k of None \<Rightarrow> dflt | Some v \<Rightarrow> v)"

section \<open>Bounding the extracted containers (\<open>scrape_current_page_flights\<close>, lines 414-426)\<close>

text \<open>
  \<open>int(n / 2 + 1)\<close> and \<open>int(n / 2 + 1.5)\<close>: true division, then truncation, which on
  these non-negative values is the floor. The halves are exact, so the quotient is taken
  in the rationals.
\<close>

definition max_idx :: "nat \<Rightarrow> nat \<Rightarrow> nat" where
  "max_idx n max_flights =
     (let m = (if n mod 2 = 0 then nat \<lfloor>(of_nat n :: rat) / 2 + 1\<rfloor>
               else nat \<lfloor>(of_nat n :: rat) / 2 + 3 / 2\<rfloor>)
      in if m > max_flights then max_flights else m)"

text \<open>
  The containers that are handed to the extraction loop: none when nothing was located
  (the early \<open>return []\<close>), otherwise the slice \<open>containers[:max_idx]\<close>.
\<close>

definition bounded_containers :: "'c list \<Rightarrow> nat \<Rightarrow> 'c list" where
  "bounded_containers containers max_flights =
     (let n = length containers
      in if n = 0 then [] else take (max_idx n max_flights) containers)"

text \<open>The default of the parameter \<open>max_flights\<close>.\<close>

definition default_max_flights :: nat where
  "default_max_flights = 15"

section \<open>Reconciling the two views (\<open>scrape_flights\<close>, lines 544-581)\<close>

text \<open>
  The identity key of a flight: the four \<open>str(flight.get(..., ""))\<close> of the source, with
  no further treatment of the text.
\<close>

type_synonym key = "pystr \<times> pystr \<times> pystr \<times> pystr"

definition identity_key :: "flight \<Rightarrow> key" where
  "identity_key f =
     (get f ''Dep Time'' [], get f ''Arrival Time'' [],
      get f ''Dep Airport'' [], get f ''Arr Airport'' [])"

text \<open>Lines 544-552: the dictionary from key to cheapest-view price; a later flight overwrites.\<close>

definition cheapest_price_dict :: "flight list \<Rightarrow> (key \<rightharpoonup> pystr)" where
  "cheapest_price_dict cheapest_flights =
     foldl (\<lambda>d flight. d(identity_key flight \<mapsto> get flight ''Price'' NA))
       Map.empty cheapest_flights"

text \<open>Lines 554-561: every flight of the default view receives its \<open>Cheapest Price\<close>.\<close>

definition set_cheapest_price :: "(key \<rightharpoonup> pystr) \<Rightarrow> flight \<Rightarrow> flight" where
  "set_cheapest_price d flight =
     flight(''Cheapest Price'' \<mapsto> (case d (identity_key flight) of None \<Rightarrow> NA | Some p \<Rightarrow> p))"

text \<open>The test inside \<open>any(...)\<close> of lines 572-578, field by field.\<close>

definition key_matches :: "key \<Rightarrow> flight \<Rightarrow> bool" where
  "key_matches key_cf f =
     (case key_cf of (k0, k1, k2, k3) \<Rightarrow>
        get f ''Dep Time'' [] = k0 \<and> get f ''Arrival Time'' [] = k1 \<and>
        get f ''Dep Airport'' [] = k2 \<and> get f ''Arr Airport'' [] = k3)"

text \<open>Lines 564-581, one iteration: a cheapest-view flight that matches nothing saved so far
  is appended, its price moved to \<open>Cheapest Price\<close>.\<close>

definition add_cheapest_flight :: "flight list \<Rightarrow> flight \<Rightarrow> flight list" where
  "add_cheapest_flight all_flights_to_save cf =
     (let original_price = get cf ''Price'' NA;
          key_cf = identity_key cf
      in if \<not> list_ex (key_matches key_cf) all_flights_to_save
         then all_flights_to_save @ [cf(''Price'' \<mapsto> NA, ''Cheapest Price'' \<mapsto> original_price)]
         else all_flights_to_save)"

definition merge_views :: "flight list \<Rightarrow> flight list \<Rightarrow> flight list" where
  "merge_views initial_flights cheapest_flights =
     (let d = cheapest_price_dict cheapest_flights;
          all_flights_to_save = map (set_cheapest_price d) initial_flights
      in foldl add_cheapest_flight all_flights_to_save cheapest_flights)"

section \<open>The character tables of the runtime\<close>

text \<open>
  The regular expressions, \<open>str.strip\<close>, \<open>str.lower\<close> and \<open>float\<close> of the source consult
  the Unicode tables of the Python runtime: which code points are decimal digits (\<open>\d\<close>)
  and what digit each stands for, which are white space (\<open>\s\<close>, \<open>strip\<close>), and how a
  string is lower-cased. The tables are not part of the repository, so the model takes
  them as a parameter.
\<close>

record unicode =
  isdecimal :: "nat \<Rightarrow> bool"
  digit_value :: "nat \<Rightarrow> nat"
  isspace :: "nat \<Rightarrow> bool"
  lower :: "pystr \<Rightarrow> pystr"

text \<open>The tables restricted to ASCII, on which the examples are evaluated.\<close>

definition ascii_tables :: unicode where
  "ascii_tables =
     \<lparr> isdecimal = (\<lambda>c. 48 \<le> c \<and> c \<le> 57),
       digit_value = (\<lambda>c. c - 48),
       isspace = (\<lambda>c. c \<in> set [9, 10, 11, 12, 13, 28, 29, 30, 31, 32]),
       lower = map (\<lambda>c. if 65 \<le> c \<and> c \<le> 90 then c + 32 else c) \<rparr>"


section \<open>Regular expressions of the source\<close>

text \<open>
  The two patterns of the validation use character classes, literals, sequence,
  alternation, \<open>?\<close> and \<open>+\<close>. An expression is matched by taking its derivative along the
  string, character by character; for expressions without back-references this decides
  what the backtracking matcher of the runtime decides.
\<close>

datatype rx =
    Zero
  | One
  | Digit
  | Space
  | Lit nat
  | OneOf "nat list"
  | Seq rx rx
  | Alt rx rx
  | Opt rx
  | Plus rx

fun nullable :: "rx \<Rightarrow> bool" where
  "nullable Zero = False"
| "nullable One = True"
| "nullable Digit = False"
| "nullable Space = False"
| "nullable (Lit a) = False"
| "nullable (OneOf as) = False"
| "nullable (Seq r s) = (nullable r \<and> nullable s)"
| "nullable (Alt r s) = (nullable r \<or> nullable s)"
| "nullable (Opt r) = True"
| "nullable (Plus r) = nullable r"

fun deriv :: "unicode \<Rightarrow> nat \<Rightarrow> rx \<Rightarrow> rx" where
  "deriv U c Zero = Zero"
| "deriv U c One = Zero"
| "deriv U c Digit = (if isdecimal U c then One else Zero)"
| "deriv U c Space = (if isspace U c then One else Zero)"
| "deriv U c (Lit a) = (if c = a then One else Zero)"
| "deriv U c (OneOf as) = (if c \<in> set as then One else Zero)"
| "deriv U c (Seq r s) =
     (if nullable r then Alt (Seq (deriv U c r) s) (deriv U c s) else Seq (deriv U c r) s)"
| "deriv U c (Alt r s) = Alt (deriv U c r) (deriv U c s)"
| "deriv U c (Opt r) = deriv U c r"
| "deriv U c (Plus r) = Seq (deriv U c r) (Opt (Plus r))"

text \<open>The whole string matches the expression.\<close>

fun rx_match_all :: "unicode \<Rightarrow> rx \<Rightarrow> pystr \<Rightarrow> bool" where
  "rx_match_all U r [] = nullable r"
| "rx_match_all U r (c # cs) = rx_match_all U (deriv U c r) cs"

text \<open>\<open>re.match(r"^...", s)\<close>: some prefix of the string matches the expression.\<close>

fun rx_match_prefix :: "unicode \<Rightarrow> rx \<Rightarrow> pystr \<Rightarrow> bool" where
  "rx_match_prefix U r [] = nullable r"
| "rx_match_prefix U r (c # cs) = (nullable r \<or> rx_match_prefix U (deriv U c r) cs)"

text \<open>
  \<open>re.match(r"^...$", s)\<close>: without the multi-line flag, \<open>$\<close> stands at the end of the
  string and also just before a line feed (code point 10) that ends the string.
\<close>

definition rx_match_to_end :: "unicode \<Rightarrow> rx \<Rightarrow> pystr \<Rightarrow> bool" where
  "rx_match_to_end U r s =
     (rx_match_all U r s \<or> (s \<noteq> [] \<and> last s = 10 \<and> rx_match_all U r (butlast s)))"

text \<open>A run of literal ASCII characters.\<close>

definition lits :: "string \<Rightarrow> rx" where
  "lits s = foldr (\<lambda>c r. Seq (Lit (of_char c)) r) s One"

text \<open>
  \<open>\d+\s?kg\s?(co2e?|co\<^sub>2e?)\<close>, where the subscript two is code point 8322 and \<open>e\<close> is 101.
\<close>

definition co2_pattern :: rx where
  "co2_pattern =
     Seq (Plus Digit) (Seq (Opt Space) (Seq (lits ''kg'') (Seq (Opt Space)
       (Alt (Seq (lits ''co2'') (Opt (Lit 101)))
            (Seq (lits ''co'') (Seq (Lit 8322) (Opt (Lit 101))))))))"

text \<open>
  \<open>[\<pounds>$\<euro>]\s?\d+\<close>: the pound sign is code point 163, the dollar 36, the euro 8364.
\<close>

definition price_pattern :: rx where
  "price_pattern = Seq (OneOf [163, 36, 8364]) (Seq (Opt Space) (Plus Digit))"

section \<open>Extraction and validation (\<open>scrape_current_page_flights\<close>, lines 428-460)\<close>

text \<open>\<open>s.strip()\<close>: white space is removed at both ends.\<close>

definition strip :: "unicode \<Rightarrow> pystr \<Rightarrow> pystr" where
  "strip U s = rev (dropWhile (isspace U) (rev (dropWhile (isspace U) s)))"

text \<open>Lines 449 and 450.\<close>

definition co2_valid :: "unicode \<Rightarrow> pystr \<Rightarrow> bool" where
  "co2_valid U co2_value = rx_match_to_end U co2_pattern (lower U co2_value)"

definition price_valid :: "unicode \<Rightarrow> pystr \<Rightarrow> bool" where
  "price_valid U price_value = rx_match_prefix U price_pattern price_value"

text \<open>
  Lines 430-440. \<open>extract_flight_data\<close> is elided in the source, so it is a parameter:
  \<open>None\<close> stands for an exception, which the loop logs before it goes on. The counter
  \<open>i\<close> starts at 1.
\<close>

fun extract_from ::
  "('c \<Rightarrow> flight option) \<Rightarrow> pystr \<Rightarrow> pystr \<Rightarrow> nat \<Rightarrow> 'c list \<Rightarrow> (nat \<times> 'c \<times> flight) list" where
  "extract_from extract dep_date_value rtn_date_value i [] = []"
| "extract_from extract dep_date_value rtn_date_value i (container # rest) =
     (case extract container of
        None \<Rightarrow> extract_from extract dep_date_value rtn_date_value (Suc i) rest
      | Some flight \<Rightarrow>
          (i, container, flight(''Dep Date'' \<mapsto> dep_date_value, ''Rtn Date'' \<mapsto> rtn_date_value))
            # extract_from extract dep_date_value rtn_date_value (Suc i) rest)"

text \<open>Lines 447-450 for one flight: the two stripped texts and the two tests.\<close>

definition flight_valid :: "unicode \<Rightarrow> flight \<Rightarrow> bool" where
  "flight_valid U flight =
     (let co2_value = strip U (get flight ''CO2 Emissions'' []);
          price_value = strip U (get flight ''Price'' [])
      in co2_valid U co2_value \<and> price_valid U price_value)"

text \<open>Lines 453-454: an accepted flight is stored with the stripped texts.\<close>

definition stored :: "unicode \<Rightarrow> flight \<Rightarrow> flight" where
  "stored U flight =
     flight(''CO2 Emissions'' \<mapsto> strip U (get flight ''CO2 Emissions'' []),
            ''Price'' \<mapsto> strip U (get flight ''Price'' []))"

text \<open>Lines 445-458: the loop that builds \<open>flights\<close>.\<close>

fun validate_flights :: "unicode \<Rightarrow> (nat \<times> 'c \<times> flight) list \<Rightarrow> flight list" where
  "validate_flights U [] = []"
| "validate_flights U ((i, container, flight) # rest) =
     (if flight_valid U flight then stored U flight # validate_flights U rest
      else validate_flights U rest)"

definition scrape_current_page_flights ::
  "unicode \<Rightarrow> ('c \<Rightarrow> flight option) \<Rightarrow> pystr \<Rightarrow> pystr \<Rightarrow> nat \<Rightarrow> 'c list \<Rightarrow> flight list" where
  "scrape_current_page_flights U extract dep_date_value rtn_date_value max_flights containers =
     validate_flights U
       (extract_from extract dep_date_value rtn_date_value 1
          (bounded_containers containers max_flights))"

section \<open>Reading an amount: \<open>float(re.sub(r"[^\d.]", "", str(x)))\<close>\<close>

text \<open>
  A cell of a data frame holds text, or the float \<open>NaN\<close> that pandas puts where a record
  has no value for a column and where \<open>read_excel\<close> reads the text \<open>N/A\<close>.
\<close>

datatype cell = Str pystr | NaN

text \<open>\<open>str(x)\<close> and the truth value of \<open>x\<close>.\<close>

fun py_str :: "cell \<Rightarrow> pystr" where
  "py_str (Str s) = s"
| "py_str NaN = ascii ''nan''"

fun truthy :: "cell \<Rightarrow> bool" where
  "truthy (Str s) = (s \<noteq> [])"
| "truthy NaN = True"

text \<open>\<open>re.sub(r"[^\d.]", "", s)\<close>: only decimal digits and full stops (code point 46) stay.\<close>

definition strip_non_numeric :: "unicode \<Rightarrow> pystr \<Rightarrow> pystr" where
  "strip_non_numeric U s = filter (\<lambda>c. isdecimal U c \<or> c = 46) s"

definition decimal_value :: "unicode \<Rightarrow> pystr \<Rightarrow> nat" where
  "decimal_value U ds = foldl (\<lambda>a c. 10 * a + digit_value U c) 0 ds"

text \<open>
  \<open>float\<close> on a string of decimal digits and full stops, which is all that the
  substitution leaves: it raises \<open>ValueError\<close> (\<open>None\<close>) unless the string has at most one
  full stop and at least one digit. The amount is kept as the exact decimal fraction; the
  source holds its nearest double.
\<close>

definition float_of_digits :: "unicode \<Rightarrow> pystr \<Rightarrow> rat option" where
  "float_of_digits U t =
     (let ip = takeWhile (\<lambda>c. c \<noteq> 46) t; rest = dropWhile (\<lambda>c. c \<noteq> 46) t
      in case rest of
           [] \<Rightarrow> if ip = [] then None else Some (of_nat (decimal_value U ip))
         | _ # fp \<Rightarrow>
             if 46 \<in> set fp \<or> (ip = [] \<and> fp = []) then None
             else Some (of_nat (decimal_value U ip) +
                        of_nat (decimal_value U fp) / 10 ^ length fp))"

definition amount :: "unicode \<Rightarrow> cell \<Rightarrow> rat option" where
  "amount U x = float_of_digits U (strip_non_numeric U (py_str x))"

section \<open>The data frame of \<open>save_to_excel\<close> (lines 219-229)\<close>

text \<open>
  A row of the frame after \<open>df = df[cols]\<close>: one cell for each of the sixteen columns, in
  the order of \<open>cols\<close>, so that \<open>row.iloc[1]\<close> is \<open>Dep Time\<close>, \<open>row.iloc[11]\<close> is \<open>Price\<close>.
\<close>

record row =
  dep_date :: cell
  dep_time :: cell
  arrival_time :: cell
  duration :: cell
  no_of_stops :: cell
  stops :: cell
  dep_airport :: cell
  arr_airport :: cell
  flight_numbers :: cell
  airline :: cell
  co2_emissions :: cell
  price :: cell
  cheapest_price :: cell
  price_change :: cell
  scrape_time :: cell
  flight_info :: cell

text \<open>
  \<open>pd.DataFrame(data)\<close> on a list of dictionaries: a record that lacks a key some other
  record has gets \<open>NaN\<close>; a column that no record has is then filled with \<open>N/A\<close>
  (lines 226-228).
\<close>

definition frame_cell :: "flight list \<Rightarrow> flight \<Rightarrow> string \<Rightarrow> cell" where
  "frame_cell data f col =
     (case f col of
        Some v \<Rightarrow> Str v
      | None \<Rightarrow> if list_ex (\<lambda>g. g col \<noteq> None) data then NaN else Str NA)"

definition frame_row :: "flight list \<Rightarrow> flight \<Rightarrow> row" where
  "frame_row data f =
     \<lparr> dep_date = frame_cell data f ''Dep Date'',
       dep_time = frame_cell data f ''Dep Time'',
       arrival_time = frame_cell data f ''Arrival Time'',
       duration = frame_cell data f ''Duration'',
       no_of_stops = frame_cell data f ''No of Stops'',
       stops = frame_cell data f ''Stops'',
       dep_airport = frame_cell data f ''Dep Airport'',
       arr_airport = frame_cell data f ''Arr Airport'',
       flight_numbers = frame_cell data f ''Flight Number(s)'',
       airline = frame_cell data f ''Airline'',
       co2_emissions = frame_cell data f ''CO2 Emissions'',
       price = frame_cell data f ''Price'',
       cheapest_price = frame_cell data f ''Cheapest Price'',
       price_change = frame_cell data f ''Price Change'',
       scrape_time = frame_cell data f ''Scrape Time'',
       flight_info = frame_cell data f ''Flight Info'' \<rparr>"

text \<open>The frame with its index labels \<open>0, 1, ...\<close>, which sorting carries along.\<close>

definition data_frame :: "flight list \<Rightarrow> (nat \<times> row) list" where
  "data_frame data = zip [0..<length data] (map (frame_row data) data)"

section \<open>Ranking (\<open>save_to_excel\<close>, lines 231-244)\<close>

text \<open>
  Lines 231-241. The result \<open>None\<close> stands for \<open>float('inf')\<close>: neither column holds a
  text that reads as an amount.
\<close>

definition get_min_price :: "unicode \<Rightarrow> row \<Rightarrow> rat option" where
  "get_min_price U r =
     (let prices = concat (map (\<lambda>val. if val \<noteq> Str NA \<and> truthy val
                                       then (case amount U val of None \<Rightarrow> [] | Some num \<Rightarrow> [num])
                                       else [])
                            [price r, cheapest_price r])
      in case prices of [] \<Rightarrow> None | p # ps \<Rightarrow> Some (fold min ps p))"

text \<open>The order of the floats with infinity, on these values.\<close>

fun price_le :: "rat option \<Rightarrow> rat option \<Rightarrow> bool" where
  "price_le a None = True"
| "price_le None (Some b) = False"
| "price_le (Some a) (Some b) = (a \<le> b)"

text \<open>
  Lines 243-244. \<open>sort_values\<close> is called with its default kind, for which pandas
  promises the rows in ascending order of the column and nothing about the order of rows
  with equal values; the sorting routine is therefore a parameter, and
  \<open>sorts_ascending\<close> is what is known of it.
\<close>

type_synonym sorter = "(rat option \<times> nat \<times> row) list \<Rightarrow> (rat option \<times> nat \<times> row) list"

definition rank_frame :: "unicode \<Rightarrow> sorter \<Rightarrow> (nat \<times> row) list \<Rightarrow> (nat \<times> row) list" where
  "rank_frame U sort_values df =
     map snd (sort_values (map (\<lambda>(idx, r). (get_min_price U r, idx, r)) df))"

definition sorts_ascending :: "sorter \<Rightarrow> bool" where
  "sorts_ascending sort_values =
     (\<forall>xs. mset (sort_values xs) = mset xs \<and>
           sorted_wrt (\<lambda>a b. price_le (fst a) (fst b)) (sort_values xs))"

section \<open>Price changes and alerts (\<open>save_to_excel\<close>, lines 296-322)\<close>

text \<open>
  Line 300: the key of a row, read from the frame. Line 291 builds the keys of the
  previous file the same way, so the previous prices are a map on such keys.
\<close>

definition row_key :: "row \<Rightarrow> key" where
  "row_key r = (py_str (dep_time r), py_str (arrival_time r),
                py_str (dep_airport r), py_str (arr_airport r))"

text \<open>
  Lines 304-322 for one row: the text written to \<open>Price Change\<close> and whether
  \<open>send_telegram_alert\<close> is called. \<open>prev_price\<close> is \<open>previous_prices.get(key)\<close>, so \<open>None\<close>
  when the key is not in the previous file. \<open>fmt0\<close> is the formatting \<open>{x:.0f}\<close> of the
  runtime and \<open>threshold\<close> is \<open>TELEGRAM_ALERT_THRESHOLD\<close>. A failing \<open>float\<close> and a division
  by zero both end in the \<open>except\<close> branch, which writes the empty string.
\<close>

definition price_change_entry ::
  "unicode \<Rightarrow> (rat \<Rightarrow> pystr) \<Rightarrow> rat \<Rightarrow> cell option \<Rightarrow> cell \<Rightarrow> pystr \<times> bool" where
  "price_change_entry U fmt0 threshold prev_price curr_price =
     (case prev_price of
        None \<Rightarrow> ([], False)
      | Some prev \<Rightarrow>
          if truthy prev \<and> truthy curr_price \<and> prev \<noteq> Str NA \<and> curr_price \<noteq> Str NA then
            (case amount U prev of
               None \<Rightarrow> ([], False)
             | Some prev_val \<Rightarrow>
                 (case amount U curr_price of
                    None \<Rightarrow> ([], False)
                  | Some curr_val \<Rightarrow>
                      let price_diff = curr_val - prev_val
                      in if price_diff > 0 then (43 # fmt0 price_diff, False)
                         else if price_diff < 0 then
                           (if prev_val = 0 then ([], False)
                            else (fmt0 price_diff, \<bar>price_diff\<bar> / prev_val > threshold))
                         else ([], False)))
          else ([], False))"

text \<open>
  The loop of lines 297-322 over the rows of \<open>combined\<close>, each with its index label. The
  row labelled 0 is skipped (\<open>if idx == 0: continue\<close>) and keeps the \<open>Price Change\<close> it
  came with. The result is the frame with its \<open>Price Change\<close> column written, and the
  labels of the rows for which an alert was sent, in order.
\<close>

fun process_price_changes ::
  "unicode \<Rightarrow> (rat \<Rightarrow> pystr) \<Rightarrow> rat \<Rightarrow> (key \<rightharpoonup> cell) \<Rightarrow> (nat \<times> row) list
     \<Rightarrow> (nat \<times> row) list \<times> nat list" where
  "process_price_changes U fmt0 threshold previous_prices [] = ([], [])"
| "process_price_changes U fmt0 threshold previous_prices ((idx, r) # rest) =
     (let (rows, alerts) = process_price_changes U fmt0 threshold previous_prices rest
      in if idx = 0 then ((idx, r) # rows, alerts)
         else
           (let (change, alert) =
                  price_change_entry U fmt0 threshold (previous_prices (row_key r)) (price r)
            in ((idx, r\<lparr>price_change := Str change\<rparr>) # rows,
                if alert then idx # alerts else alerts)))"

text \<open>The default of \<open>TELEGRAM_ALERT_THRESHOLD\<close>.\<close>

definition default_threshold :: rat where
  "default_threshold = 1 / 100"

section \<open>Dates (\<open>convert_date_with_smart_year\<close>, lines 75-105)\<close>















section \<open>Formatting \<open>{x:.0f}\<close>\<close>

text \<open>
  The formatting of the runtime on an exact amount: rounding to the nearest integer, ties
  to even, with the sign of the amount. The examples are evaluated with it.
\<close>

fun digits :: "nat \<Rightarrow> pystr" where
  "digits n = (if n < 10 then [48 + n] else digits (n div 10) @ [48 + n mod 10])"

definition round_half_even :: "rat \<Rightarrow> int" where
  "round_half_even q =
     (let f = \<lfloor>q\<rfloor>; d = q - of_int f
      in if d < 1 / 2 then f else if d > 1 / 2 then f + 1 else if even f then f else f + 1)"

definition format_0f :: "rat \<Rightarrow> pystr" where
  "format_0f q = (if q < 0 then 45 # digits (nat (round_half_even \<bar>q\<bar>))
                  else digits (nat (round_half_even q)))"

section \<open>The bound as the specification words it\<close>

text \<open>
  The specification gives the bound as \<open>max(ceil(n/2)+1, cap)\<close>; the cap of the code is
  an upper limit, which is the same expression with \<open>min\<close>.
\<close>

definition spec_bound_max :: "nat \<Rightarrow> nat \<Rightarrow> nat" where
  "spec_bound_max n cap = max (nat \<lceil>(of_nat n :: rat) / 2\<rceil> + 1) cap"

definition bound_min :: "nat \<Rightarrow> nat \<Rightarrow> nat" where
  "bound_min n cap = min (nat \<lceil>(of_nat n :: rat) / 2\<rceil> + 1) cap"

section \<open>The validation and the identity key as the specification words them\<close>

text \<open>
  The language of an expression, against which the matcher is proved, and the two shapes
  of text that the specification describes: digits, an optional space, \<open>kg\<close>, an optional
  space and one of four spellings of the gas, compared without regard to case; and a
  currency sign, an optional space and digits at the start of the text.
\<close>

inductive_set plus_lang :: "pystr set \<Rightarrow> pystr set" for L :: "pystr set" where
  one: "w \<in> L \<Longrightarrow> w \<in> plus_lang L"
| more: "u \<in> L \<Longrightarrow> v \<in> plus_lang L \<Longrightarrow> u @ v \<in> plus_lang L"

fun lang :: "unicode \<Rightarrow> rx \<Rightarrow> pystr set" where
  "lang U Zero = {}"
| "lang U One = {[]}"
| "lang U Digit = {[c] | c. isdecimal U c}"
| "lang U Space = {[c] | c. isspace U c}"
| "lang U (Lit a) = {[a]}"
| "lang U (OneOf as) = {[c] | c. c \<in> set as}"
| "lang U (Seq r s) = {u @ v | u v. u \<in> lang U r \<and> v \<in> lang U s}"
| "lang U (Alt r s) = lang U r \<union> lang U s"
| "lang U (Opt r) = insert [] (lang U r)"
| "lang U (Plus r) = plus_lang (lang U r)"

definition spec_digits :: "unicode \<Rightarrow> pystr \<Rightarrow> bool" where
  "spec_digits U ds = (ds \<noteq> [] \<and> list_all (isdecimal U) ds)"

definition spec_optional_space :: "unicode \<Rightarrow> pystr \<Rightarrow> bool" where
  "spec_optional_space U sp = (sp = [] \<or> (\<exists>c. sp = [c] \<and> isspace U c))"

definition spec_co2_text :: "unicode \<Rightarrow> pystr \<Rightarrow> bool" where
  "spec_co2_text U s =
     (\<exists>ds sp1 sp2 gas.
        lower U s = ds @ sp1 @ ascii ''kg'' @ sp2 @ gas \<and>
        spec_digits U ds \<and> spec_optional_space U sp1 \<and> spec_optional_space U sp2 \<and>
        gas \<in> {ascii ''co2'', ascii ''co2e'', ascii ''co'' @ [8322], ascii ''co'' @ [8322, 101]})"

definition spec_price_text :: "unicode \<Rightarrow> pystr \<Rightarrow> bool" where
  "spec_price_text U s =
     (\<exists>sym sp ds rest.
        s = sym # sp @ ds @ rest \<and> sym \<in> {163, 36, 8364} \<and>
        spec_optional_space U sp \<and> spec_digits U ds)"

text \<open>
  Lower-casing neither creates a final line feed nor moves one to the end, as holds of
  the runtime's \<open>str.lower\<close>; with the line feed being white space, a stripped text then
  never ends in one after lower-casing.
\<close>

definition lower_keeps_end :: "unicode \<Rightarrow> bool" where
  "lower_keeps_end U =
     (\<forall>s. lower U s \<noteq> [] \<and> last (lower U s) = 10 \<longrightarrow> s \<noteq> [] \<and> last s = 10)"


section \<open>Example flights\<close>

text \<open>
  Two offers of the default view that share departure, arrival and airports (a code
  share), the same offer as the cheapest view prices it, and an offer that only the
  cheapest view shows.
\<close>

definition ex_a1 :: flight where
  "ex_a1 = map_of [(''Dep Time'', ascii ''10:00''), (''Arrival Time'', ascii ''12:15''),
     (''Dep Airport'', ascii ''LHR''), (''Arr Airport'', ascii ''CDG''),
     (''Airline'', ascii ''British Airways''), (''Price'', 163 # ascii ''120'')]"

definition ex_a2 :: flight where
  "ex_a2 = map_of [(''Dep Time'', ascii ''10:00''), (''Arrival Time'', ascii ''12:15''),
     (''Dep Airport'', ascii ''LHR''), (''Arr Airport'', ascii ''CDG''),
     (''Airline'', ascii ''Iberia''), (''Price'', 163 # ascii ''131'')]"

definition ex_b1 :: flight where
  "ex_b1 = map_of [(''Dep Time'', ascii ''10:00''), (''Arrival Time'', ascii ''12:15''),
     (''Dep Airport'', ascii ''LHR''), (''Arr Airport'', ascii ''CDG''),
     (''Airline'', ascii ''British Airways''), (''Price'', 163 # ascii ''115'')]"

definition ex_b2 :: flight where
  "ex_b2 = map_of [(''Dep Time'', ascii ''06:40''), (''Arrival Time'', ascii ''09:00''),
     (''Dep Airport'', ascii ''LGW''), (''Arr Airport'', ascii ''ORY''),
     (''Airline'', ascii ''Vueling''), (''Price'', 163 # ascii ''89'')]"


text \<open>
  An extracted offer with untrimmed texts, a banner that shares the selector of the offers,
  and the first example offer with its airports in another case and with spaces.
\<close>

definition ex_raw :: flight where
  "ex_raw = map_of [(''Dep Time'', ascii ''10:00''), (''Arrival Time'', ascii ''12:15''),
     (''Dep Airport'', ascii ''LHR''), (''Arr Airport'', ascii ''CDG''),
     (''CO2 Emissions'', ascii '' 120 kg CO'' @ [8322, 101]),
     (''Price'', 163 # ascii ''245 '')]"

definition ex_banner :: flight where
  "ex_banner = map_of [(''CO2 Emissions'', ascii ''N/A''), (''Price'', ascii ''245'')]"






section \<open>Bounding: proofs\<close>

lemma floor_half_even: "nat \<lfloor>(of_nat (2 * k) :: rat) / 2 + 1\<rfloor> = k + 1"
proof -
  have "(of_nat (2 * k) :: rat) / 2 + 1 = of_int (int k + 1)" by simp
  then have "\<lfloor>(of_nat (2 * k) :: rat) / 2 + 1\<rfloor> = int k + 1"
    by (simp only: floor_of_int)
  then show ?thesis by (simp del: of_nat_mult)
qed

lemma floor_half_odd: "nat \<lfloor>(of_nat (2 * k + 1) :: rat) / 2 + 3 / 2\<rfloor> = k + 2"
proof -
  have "(of_nat (2 * k + 1) :: rat) / 2 + 3 / 2 = of_int (int k + 2)"
    by (simp add: field_simps)
  then have "\<lfloor>(of_nat (2 * k + 1) :: rat) / 2 + 3 / 2\<rfloor> = int k + 2"
    by (simp only: floor_of_int)
  then show ?thesis by (simp del: of_nat_mult of_nat_add of_nat_Suc)
qed

lemma max_idx_even: "max_idx (2 * k) cap = min (k + 1) cap"
  unfolding max_idx_def Let_def floor_half_even by (simp add: min_def)

lemma max_idx_odd: "max_idx (2 * k + 1) cap = min (k + 2) cap"
proof -
  have "(2 * k + 1) mod 2 \<noteq> (0::nat)" by presburger
  then show ?thesis
    unfolding max_idx_def Let_def floor_half_odd by (simp add: min_def)
qed

lemma max_idx_10: "max_idx 10 default_max_flights = 6"
  using max_idx_even [of 5 15] by (simp add: default_max_flights_def)




lemma ceil_half_even: "nat \<lceil>(of_nat (2 * k) :: rat) / 2\<rceil> = k"
proof -
  have "(of_nat (2 * k) :: rat) / 2 = of_int (int k)" by simp
  then have "\<lceil>(of_nat (2 * k) :: rat) / 2\<rceil> = int k" by (simp only: ceiling_of_int)
  then show ?thesis by (simp del: of_nat_mult)
qed

lemma ceil_half_odd: "nat \<lceil>(of_nat (2 * k + 1) :: rat) / 2\<rceil> = k + 1"
proof -
  have "\<lceil>(of_nat (2 * k + 1) :: rat) / 2\<rceil> = int k + 1"
    by (rule ceiling_unique) (simp_all add: field_simps)
  then show ?thesis by (simp del: of_nat_mult of_nat_add of_nat_Suc)
qed

lemma max_idx_formula: "max_idx n cap = bound_min n cap"
proof (cases "even n")
  case True
  then obtain k where "n = 2 * k" by (auto elim: evenE)
  then show ?thesis
    by (simp only: max_idx_even bound_min_def ceil_half_even)
next
  case False
  then obtain k where "n = 2 * k + 1" by (auto elim: oddE)
  then show ?thesis
    by (simp only: max_idx_odd bound_min_def ceil_half_odd)
qed

text \<open>
  Claim C8, as the code has it. For every list of located containers the extraction loop
  receives the first \<open>min(ceil(n/2)+1, cap)\<close> of them: the cap is an upper limit.
\<close>

theorem bounding_general:
  "bounded_containers containers cap = take (bound_min (length containers) cap) containers"
  by (simp add: bounded_containers_def Let_def max_idx_formula)

text \<open>
  Claim C8 as worded, with \<open>max\<close>, fails at ten containers: six are processed, while
  \<open>max(ceil(10/2)+1, 15)\<close> is 15 and the first 15 of ten containers are all ten.
\<close>

theorem bounding_not_max:
  "length (bounded_containers [0..<10] default_max_flights) = 6 \<and>
   spec_bound_max (length [0..<10]) default_max_flights = 15 \<and>
   bounded_containers [0..<10] default_max_flights \<noteq>
     take (spec_bound_max (length [0..<10]) default_max_flights) [0..<10]"
proof -
  have c: "nat \<lceil>(of_nat 10 :: rat) / 2\<rceil> = 5" using ceil_half_even [of 5] by simp
  have m: "spec_bound_max 10 default_max_flights = 15"
    unfolding spec_bound_max_def c by (simp add: default_max_flights_def)
  have b: "bounded_containers [0..<10] default_max_flights = take 6 [0..<10]"
    by (simp add: bounded_containers_def Let_def max_idx_10)
  have l: "length (take 6 [0..<10]) = 6" by simp
  have "length (take 15 [0..<10]) = 10" by simp
  with l have "length (take 6 [0..<10]) \<noteq> length (take 15 [0..<10])" by simp
  then have "take 6 [0..<10] \<noteq> take 15 [0..<10]" by metis
  then show ?thesis using m b l by simp
qed

section \<open>Reconciliation: proofs\<close>

lemma key_set_cheapest [simp]: "identity_key (set_cheapest_price d f) = identity_key f"
  by (simp add: identity_key_def set_cheapest_price_def get_def)

lemma key_promote [simp]:
  "identity_key (cf(''Price'' \<mapsto> p, ''Cheapest Price'' \<mapsto> q)) = identity_key cf"
  by (simp add: identity_key_def get_def)

lemma key_matches_iff: "key_matches k f \<longleftrightarrow> identity_key f = k"
  by (cases k) (auto simp: key_matches_def identity_key_def)

lemma list_ex_key: "list_ex (key_matches k) fs \<longleftrightarrow> k \<in> identity_key ` set fs"
  by (auto simp: list_ex_iff key_matches_iff)









lemmas ex_defs = ex_a1_def ex_a2_def ex_b1_def ex_b2_def

lemma ex_keys:
  "identity_key ex_a1 = (ascii ''10:00'', ascii ''12:15'', ascii ''LHR'', ascii ''CDG'')"
  "identity_key ex_a2 = (ascii ''10:00'', ascii ''12:15'', ascii ''LHR'', ascii ''CDG'')"
  "identity_key ex_b1 = (ascii ''10:00'', ascii ''12:15'', ascii ''LHR'', ascii ''CDG'')"
  "identity_key ex_b2 = (ascii ''06:40'', ascii ''09:00'', ascii ''LGW'', ascii ''ORY'')"
  by (simp_all add: identity_key_def get_def ex_defs)




lemma foldl_dict_none:
  "foldl (\<lambda>d flight. d(identity_key flight \<mapsto> get flight ''Price'' NA)) d0 B k = None
   \<longleftrightarrow> d0 k = None \<and> k \<notin> identity_key ` set B"
  by (induction B arbitrary: d0) auto

lemma foldl_dict_some:
  "foldl (\<lambda>d flight. d(identity_key flight \<mapsto> get flight ''Price'' NA)) d0 B k = Some p
   \<Longrightarrow> d0 k = Some p \<or> (\<exists>b\<in>set B. identity_key b = k \<and> p = get b ''Price'' NA)"
proof (induction B arbitrary: d0)
  case Nil
  then show ?case by simp
next
  case (Cons b B)
  from Cons.prems
  have "foldl (\<lambda>d flight. d(identity_key flight \<mapsto> get flight ''Price'' NA))
          (d0(identity_key b \<mapsto> get b ''Price'' NA)) B k = Some p" by (simp only: foldl_Cons)
  from Cons.IH [OF this] show ?case by (auto split: if_splits)
qed

lemma dict_none: "cheapest_price_dict B k = None \<longleftrightarrow> k \<notin> identity_key ` set B"
  by (simp add: cheapest_price_dict_def foldl_dict_none)

lemma dict_some:
  "cheapest_price_dict B k = Some p \<Longrightarrow> \<exists>b\<in>set B. identity_key b = k \<and> p = get b ''Price'' NA"
  using foldl_dict_some [of Map.empty B k p] by (simp add: cheapest_price_dict_def)

lemma add_ext:
  "\<exists>ext. add_cheapest_flight acc cf = acc @ ext \<and>
     (\<forall>m\<in>set ext. identity_key m \<notin> identity_key ` set acc \<and> identity_key m = identity_key cf \<and>
        m ''Price'' = Some NA \<and> m ''Cheapest Price'' = Some (get cf ''Price'' NA))"
  by (simp add: add_cheapest_flight_def Let_def list_ex_key)

lemma foldl_add_ext:
  "\<exists>ext. foldl add_cheapest_flight acc B = acc @ ext \<and>
     (\<forall>m\<in>set ext. identity_key m \<notin> identity_key ` set acc \<and> m ''Price'' = Some NA \<and>
        (\<exists>b\<in>set B. identity_key b = identity_key m \<and>
           m ''Cheapest Price'' = Some (get b ''Price'' NA)))"
proof (induction B arbitrary: acc)
  case Nil
  show ?case by simp
next
  case (Cons b B)
  obtain e1 where e1: "add_cheapest_flight acc b = acc @ e1"
    and p1: "\<forall>m\<in>set e1. identity_key m \<notin> identity_key ` set acc \<and> identity_key m = identity_key b \<and>
        m ''Price'' = Some NA \<and> m ''Cheapest Price'' = Some (get b ''Price'' NA)"
    using add_ext [of acc b] by blast
  obtain e2 where e2: "foldl add_cheapest_flight (acc @ e1) B = (acc @ e1) @ e2"
    and p2: "\<forall>m\<in>set e2. identity_key m \<notin> identity_key ` set (acc @ e1) \<and> m ''Price'' = Some NA \<and>
        (\<exists>b\<in>set B. identity_key b = identity_key m \<and>
           m ''Cheapest Price'' = Some (get b ''Price'' NA))"
    using Cons.IH [of "acc @ e1"] by blast
  have "foldl add_cheapest_flight acc (b # B) = acc @ (e1 @ e2)"
    using e1 e2 by simp
  moreover have "\<forall>m\<in>set (e1 @ e2). identity_key m \<notin> identity_key ` set acc \<and> m ''Price'' = Some NA \<and>
        (\<exists>b'\<in>set (b # B). identity_key b' = identity_key m \<and>
           m ''Cheapest Price'' = Some (get b' ''Price'' NA))"
  proof
    fix m assume "m \<in> set (e1 @ e2)"
    then consider "m \<in> set e1" | "m \<in> set e2" by auto
    then show "identity_key m \<notin> identity_key ` set acc \<and> m ''Price'' = Some NA \<and>
        (\<exists>b'\<in>set (b # B). identity_key b' = identity_key m \<and>
           m ''Cheapest Price'' = Some (get b' ''Price'' NA))"
    proof cases
      case 1
      with p1 show ?thesis by auto
    next
      case 2
      with p2 have a: "identity_key m \<notin> identity_key ` set (acc @ e1)" and b: "m ''Price'' = Some NA"
        and c: "\<exists>b\<in>set B. identity_key b = identity_key m \<and> m ''Cheapest Price'' = Some (get b ''Price'' NA)"
        by blast+
      from a have "identity_key m \<notin> identity_key ` set acc" by auto
      moreover from c have "\<exists>b'\<in>set (b # B). identity_key b' = identity_key m \<and>
           m ''Cheapest Price'' = Some (get b' ''Price'' NA)" by auto
      ultimately show ?thesis using b by blast
    qed
  qed
  ultimately show ?case by blast
qed

text \<open>
  Claim C2. For every record \<open>m\<close> of the merged list: when its identity key occurs in the
  default view, its price is that of a default-view record with the key, its cheapest
  price is the price of a cheapest-view record with the key when there is one and the
  sentinel \<open>N/A\<close> when there is none (so always \<open>N/A\<close> when the cheapest view is empty);
  when its key occurs only in the cheapest view, its price is the sentinel \<open>N/A\<close> and its
  cheapest price is the price of a cheapest-view record with the key.
\<close>

theorem merge_price_fields:
  assumes "m \<in> set (merge_views A B)"
  shows "(identity_key m \<in> identity_key ` set A \<longrightarrow>
           (\<exists>a\<in>set A. identity_key a = identity_key m \<and> m ''Price'' = a ''Price'') \<and>
           (identity_key m \<in> identity_key ` set B \<longrightarrow>
              (\<exists>b\<in>set B. identity_key b = identity_key m \<and>
                 m ''Cheapest Price'' = Some (get b ''Price'' NA))) \<and>
           (identity_key m \<notin> identity_key ` set B \<longrightarrow> m ''Cheapest Price'' = Some NA)) \<and>
         (identity_key m \<notin> identity_key ` set A \<longrightarrow>
           identity_key m \<in> identity_key ` set B \<and> m ''Price'' = Some NA \<and>
           (\<exists>b\<in>set B. identity_key b = identity_key m \<and>
              m ''Cheapest Price'' = Some (get b ''Price'' NA)))"
proof -
  let ?d = "cheapest_price_dict B"
  let ?A' = "map (set_cheapest_price ?d) A"
  have M: "merge_views A B = foldl add_cheapest_flight ?A' B"
    by (simp add: merge_views_def Let_def)
  obtain ext where ext: "merge_views A B = ?A' @ ext"
    and pext: "\<forall>m\<in>set ext. identity_key m \<notin> identity_key ` set ?A' \<and> m ''Price'' = Some NA \<and>
        (\<exists>b\<in>set B. identity_key b = identity_key m \<and>
           m ''Cheapest Price'' = Some (get b ''Price'' NA))"
    unfolding M using foldl_add_ext [of ?A' B] by blast
  have keysA': "identity_key ` set ?A' = identity_key ` set A"
    by (auto simp: image_iff)
  from assms ext consider "m \<in> set ?A'" | "m \<in> set ext" by auto
  then show ?thesis
  proof cases
    case 1
    then obtain a where a: "a \<in> set A" and m: "m = set_cheapest_price ?d a" by auto
    have k: "identity_key m = identity_key a" using m by simp
    have pr: "m ''Price'' = a ''Price''" using m by (simp add: set_cheapest_price_def)
    have ch: "m ''Cheapest Price'' = Some (case ?d (identity_key a) of None \<Rightarrow> NA | Some p \<Rightarrow> p)"
      using m by (simp add: set_cheapest_price_def)
    have inA: "identity_key m \<in> identity_key ` set A" using a k by auto
    have c1: "identity_key m \<in> identity_key ` set B \<longrightarrow>
              (\<exists>b\<in>set B. identity_key b = identity_key m \<and>
                 m ''Cheapest Price'' = Some (get b ''Price'' NA))"
    proof
      assume "identity_key m \<in> identity_key ` set B"
      then have "?d (identity_key a) \<noteq> None" using k by (simp add: dict_none)
      then obtain p where p: "?d (identity_key a) = Some p" by auto
      from dict_some [OF p] obtain b where "b \<in> set B" "identity_key b = identity_key a"
        "p = get b ''Price'' NA" by blast
      then show "\<exists>b\<in>set B. identity_key b = identity_key m \<and>
                 m ''Cheapest Price'' = Some (get b ''Price'' NA)"
        using ch p k by auto
    qed
    have c2: "identity_key m \<notin> identity_key ` set B \<longrightarrow> m ''Cheapest Price'' = Some NA"
    proof
      assume "identity_key m \<notin> identity_key ` set B"
      then have "?d (identity_key a) = None" using k by (simp add: dict_none)
      then show "m ''Cheapest Price'' = Some NA" using ch by simp
    qed
    from a k pr have "\<exists>a\<in>set A. identity_key a = identity_key m \<and> m ''Price'' = a ''Price''"
      by auto
    with inA c1 c2 show ?thesis by blast
  next
    case 2
    with pext have n: "identity_key m \<notin> identity_key ` set ?A'" and pr: "m ''Price'' = Some NA"
      and b: "\<exists>b\<in>set B. identity_key b = identity_key m \<and>
           m ''Cheapest Price'' = Some (get b ''Price'' NA)" by blast+
    from n keysA' have nA: "identity_key m \<notin> identity_key ` set A" by simp
    from b have inB: "identity_key m \<in> identity_key ` set B" by (metis image_eqI)
    from nA inB pr b show ?thesis by blast
  qed
qed


lemma ex_key_ne: "identity_key ex_b2 \<noteq> identity_key ex_a1"
  by (simp add: ex_keys ascii_def)

lemma ex_key_eq: "identity_key ex_b1 = identity_key ex_a1"
  by (simp add: ex_keys)

lemma ex_merge:
  "merge_views [ex_a1] [ex_b1, ex_b2] =
     [ex_a1(''Cheapest Price'' \<mapsto> 163 # ascii ''115''),
      ex_b2(''Price'' \<mapsto> NA, ''Cheapest Price'' \<mapsto> 163 # ascii ''89'')]"
proof -
  have "cheapest_price_dict [ex_b1, ex_b2] (identity_key ex_a1) = Some (get ex_b1 ''Price'' NA)"
    using ex_key_ne by (simp add: cheapest_price_dict_def ex_key_eq)
  moreover have "get ex_b1 ''Price'' NA = 163 # ascii ''115''"
    by (simp add: ex_b1_def get_def)
  ultimately have a: "set_cheapest_price (cheapest_price_dict [ex_b1, ex_b2]) ex_a1 =
      ex_a1(''Cheapest Price'' \<mapsto> 163 # ascii ''115'')"
    by (simp add: set_cheapest_price_def)
  have p: "get ex_b2 ''Price'' NA = 163 # ascii ''89''"
    by (simp add: ex_b2_def get_def)
  have k: "identity_key (ex_a1(''Cheapest Price'' \<mapsto> 163 # ascii ''115'')) = identity_key ex_a1"
    by (simp add: identity_key_def get_def)
  have s1: "add_cheapest_flight [ex_a1(''Cheapest Price'' \<mapsto> 163 # ascii ''115'')] ex_b1 =
      [ex_a1(''Cheapest Price'' \<mapsto> 163 # ascii ''115'')]"
    by (simp add: add_cheapest_flight_def Let_def key_matches_iff k ex_key_eq)
  have s2: "add_cheapest_flight [ex_a1(''Cheapest Price'' \<mapsto> 163 # ascii ''115'')] ex_b2 =
      [ex_a1(''Cheapest Price'' \<mapsto> 163 # ascii ''115''),
       ex_b2(''Price'' \<mapsto> NA, ''Cheapest Price'' \<mapsto> 163 # ascii ''89'')]"
    using ex_key_ne by (simp add: add_cheapest_flight_def Let_def key_matches_iff k p eq_commute)
  show ?thesis
    by (simp add: merge_views_def Let_def a s1 s2)
qed

text \<open>
  C2 on the example views: the offer of both views keeps its default price and takes the
  cheapest-view price; the offer of the cheapest view alone has price \<open>N/A\<close>.
\<close>

theorem merge_price_fields_witness:
  "last (merge_views [ex_a1] [ex_b1, ex_b2]) \<in> set (merge_views [ex_a1] [ex_b1, ex_b2]) \<and>
   identity_key (last (merge_views [ex_a1] [ex_b1, ex_b2])) \<notin> identity_key ` set [ex_a1] \<and>
   last (merge_views [ex_a1] [ex_b1, ex_b2]) ''Price'' = Some NA \<and>
   last (merge_views [ex_a1] [ex_b1, ex_b2]) ''Cheapest Price'' = Some (163 # ascii ''89'') \<and>
   hd (merge_views [ex_a1] [ex_b1, ex_b2]) \<in> set (merge_views [ex_a1] [ex_b1, ex_b2]) \<and>
   identity_key (hd (merge_views [ex_a1] [ex_b1, ex_b2])) \<in> identity_key ` set [ex_a1] \<and>
   hd (merge_views [ex_a1] [ex_b1, ex_b2]) ''Price'' = Some (163 # ascii ''120'') \<and>
   hd (merge_views [ex_a1] [ex_b1, ex_b2]) ''Cheapest Price'' = Some (163 # ascii ''115'')"
proof -
  let ?M = "merge_views [ex_a1] [ex_b1, ex_b2]"
  have l: "last ?M \<in> set ?M" and h: "hd ?M \<in> set ?M" by (simp_all add: ex_merge)
  have kl: "identity_key (last ?M) \<notin> identity_key ` set [ex_a1]"
    using ex_key_ne by (simp add: ex_merge)
  have kh: "identity_key (hd ?M) \<in> identity_key ` set [ex_a1]"
    by (simp add: ex_merge identity_key_def get_def)
  have pl: "last ?M ''Price'' = Some NA"
    using merge_price_fields [OF l] kl by blast
  have cl: "last ?M ''Cheapest Price'' = Some (163 # ascii ''89'')" by (simp add: ex_merge)
  have ph: "hd ?M ''Price'' = Some (163 # ascii ''120'')" by (simp add: ex_merge) (simp add: ex_a1_def)
  have ch: "hd ?M ''Cheapest Price'' = Some (163 # ascii ''115'')" by (simp add: ex_merge)
  from l kl pl cl h kh ph ch show ?thesis by blast
qed



section \<open>Price changes and alerts: proofs\<close>



lemma float_of_digits_Nil [simp]: "float_of_digits U [] = None"
  by (simp add: float_of_digits_def)

lemma amount_empty [simp]: "amount U (Str []) = None"
  by (simp add: amount_def strip_non_numeric_def)

















text \<open>
  Claim C4, as the code has it. With no previous file, every row but the one labelled 0
  has its price change set to the empty string, the row labelled 0 is left as it is, and
  no alert is sent.
\<close>

theorem no_previous_file:
  "process_price_changes U fmt0 threshold Map.empty combined =
     (map (\<lambda>(idx, r). if idx = 0 then (idx, r) else (idx, r\<lparr>price_change := Str []\<rparr>)) combined, [])"
proof (induction combined)
  case Nil
  show ?case by simp
next
  case (Cons x xs)
  obtain idx r where x: "x = (idx, r)" by (cases x)
  show ?case unfolding x using Cons.IH
    by (simp add: price_change_entry_def)
qed





lemma ex_row_b2:
  "row_key (frame_row data ex_b2) = (ascii ''06:40'', ascii ''09:00'', ascii ''LGW'', ascii ''ORY'')"
  "price (frame_row data ex_b2) = Str (163 # ascii ''89'')"
  by (simp_all add: row_key_def frame_row_def frame_cell_def ex_b2_def)

lemma ex_frame2:
  "data_frame [ex_b2, ex_a1] = [(0, frame_row [ex_b2, ex_a1] ex_b2), (1, frame_row [ex_b2, ex_a1] ex_a1)]"
  by (simp add: data_frame_def upt_rec)





text \<open>
  Claim C4 as worded fails for the row labelled 0: in the frame of a merged set of one
  offer, with no previous file, the price change of that offer stays \<open>N/A\<close>, the filler
  of lines 226-228, and is not the empty string.
\<close>

theorem no_previous_file_first_row:
  "map (price_change \<circ> snd)
     (fst (process_price_changes ascii_tables format_0f default_threshold Map.empty
            (data_frame (merge_views [ex_a1] [])))) = [Str NA] \<and>
   Str NA \<noteq> Str []"
proof -
  have m: "merge_views [ex_a1] [] = [ex_a1(''Cheapest Price'' \<mapsto> NA)]"
    by (simp add: merge_views_def Let_def set_cheapest_price_def cheapest_price_dict_def)
  have "frame_cell [ex_a1(''Cheapest Price'' \<mapsto> NA)] (ex_a1(''Cheapest Price'' \<mapsto> NA)) ''Price Change'' = Str NA"
    by (simp add: frame_cell_def ex_a1_def)
  then have "price_change (frame_row [ex_a1(''Cheapest Price'' \<mapsto> NA)] (ex_a1(''Cheapest Price'' \<mapsto> NA))) = Str NA"
    by (simp add: frame_row_def)
  then show ?thesis by (simp add: m data_frame_def NA_def ascii_def)
qed

text \<open>
  C4 on the frame of two offers.
\<close>

theorem no_previous_file_witness:
  "process_price_changes ascii_tables format_0f default_threshold Map.empty (data_frame [ex_b2, ex_a1]) =
     ([(0, frame_row [ex_b2, ex_a1] ex_b2),
       (1, (frame_row [ex_b2, ex_a1] ex_a1)\<lparr>price_change := Str []\<rparr>)], [])"
  using no_previous_file [of ascii_tables format_0f default_threshold "data_frame [ex_b2, ex_a1]"]
  by (simp add: ex_frame2)


section \<open>Validation: proofs\<close>

lemma plus_lang_Nil: "[] \<in> plus_lang L \<longleftrightarrow> [] \<in> L"
proof
  assume "[] \<in> plus_lang L"
  then have "\<And>w. w \<in> plus_lang L \<Longrightarrow> w = [] \<longrightarrow> [] \<in> L"
    by - (erule plus_lang.induct, auto)
  then show "[] \<in> L" using \<open>[] \<in> plus_lang L\<close> by blast
next
  assume "[] \<in> L" then show "[] \<in> plus_lang L" by (rule plus_lang.one)
qed

lemma plus_lang_Cons_dest:
  "x \<in> plus_lang L \<Longrightarrow> x = c # w \<Longrightarrow>
     \<exists>u v. w = u @ v \<and> c # u \<in> L \<and> (v = [] \<or> v \<in> plus_lang L)"
proof (induction arbitrary: w rule: plus_lang.induct)
  case (one x)
  then show ?case by auto
next
  case (more a b)
  show ?case
  proof (cases a)
    case Nil
    with more.prems have "b = c # w" by simp
    from more.IH [OF this] show ?thesis .
  next
    case (Cons a0 a')
    with more.prems have "a0 = c" "w = a' @ b" by auto
    with more.hyps Cons show ?thesis by blast
  qed
qed

lemma plus_lang_Cons:
  "c # w \<in> plus_lang L \<longleftrightarrow> (\<exists>u v. w = u @ v \<and> c # u \<in> L \<and> (v = [] \<or> v \<in> plus_lang L))"
proof
  assume "c # w \<in> plus_lang L"
  then show "\<exists>u v. w = u @ v \<and> c # u \<in> L \<and> (v = [] \<or> v \<in> plus_lang L)"
    by (rule plus_lang_Cons_dest) simp
next
  assume "\<exists>u v. w = u @ v \<and> c # u \<in> L \<and> (v = [] \<or> v \<in> plus_lang L)"
  then obtain u v where w: "w = u @ v" and u: "c # u \<in> L" and v: "v = [] \<or> v \<in> plus_lang L"
    by blast
  from v show "c # w \<in> plus_lang L"
  proof
    assume "v = []" with w u show ?thesis by (simp add: plus_lang.one)
  next
    assume "v \<in> plus_lang L"
    from plus_lang.more [OF u this] show ?thesis using w by simp
  qed
qed

lemma nullable_lang: "nullable r \<longleftrightarrow> [] \<in> lang U r"
  by (induction r) (auto simp: plus_lang_Nil)

lemma lang_SeqI: "u \<in> lang U r \<Longrightarrow> v \<in> lang U s \<Longrightarrow> u @ v \<in> lang U (Seq r s)"
  by auto

lemma deriv_lang: "w \<in> lang U (deriv U c r) \<longleftrightarrow> c # w \<in> lang U r"
proof (induction r arbitrary: w)
  case (Seq r s)
  show ?case
  proof
    assume "w \<in> lang U (deriv U c (Seq r s))"
    then consider (a) u v where "w = u @ v" "u \<in> lang U (deriv U c r)" "v \<in> lang U s"
      | (b) "nullable r" "w \<in> lang U (deriv U c s)"
      by (auto split: if_splits)
    then show "c # w \<in> lang U (Seq r s)"
    proof cases
      case a
      then have "c # u \<in> lang U r" using Seq.IH(1) by simp
      then have "(c # u) @ v \<in> lang U (Seq r s)" using a(3) by (rule lang_SeqI)
      then show ?thesis using a(1) by simp
    next
      case b
      then have "[] \<in> lang U r" "c # w \<in> lang U s"
        using Seq.IH(2) nullable_lang [of r U] by simp_all
      then have "[] @ (c # w) \<in> lang U (Seq r s)" by (rule lang_SeqI)
      then show ?thesis by simp
    qed
  next
    assume "c # w \<in> lang U (Seq r s)"
    then obtain u v where uv: "c # w = u @ v" "u \<in> lang U r" "v \<in> lang U s" by auto
    show "w \<in> lang U (deriv U c (Seq r s))"
    proof (cases u)
      case Nil
      with uv have "nullable r" "w \<in> lang U (deriv U c s)"
        using Seq.IH(2) nullable_lang [of r U] by simp_all
      then show ?thesis by simp
    next
      case (Cons a u')
      with uv have "a = c" "w = u' @ v" by auto
      with uv Cons have "u' \<in> lang U (deriv U c r)" using Seq.IH(1) by simp
      with \<open>w = u' @ v\<close> uv(3) show ?thesis by auto
    qed
  qed
next
  case (Plus r)
  have "w \<in> lang U (deriv U c (Plus r)) \<longleftrightarrow>
        (\<exists>u v. w = u @ v \<and> u \<in> lang U (deriv U c r) \<and> (v = [] \<or> v \<in> plus_lang (lang U r)))"
    by auto
  also have "\<dots> \<longleftrightarrow> (\<exists>u v. w = u @ v \<and> c # u \<in> lang U r \<and> (v = [] \<or> v \<in> plus_lang (lang U r)))"
    using Plus.IH by simp
  also have "\<dots> \<longleftrightarrow> c # w \<in> plus_lang (lang U r)"
    by (rule plus_lang_Cons [symmetric])
  finally show ?case by simp
qed auto

lemma rx_match_all_lang: "rx_match_all U r s \<longleftrightarrow> s \<in> lang U r"
  by (induction s arbitrary: r) (simp_all add: nullable_lang [of _ U] deriv_lang)

lemma rx_match_prefix_lang: "rx_match_prefix U r s \<longleftrightarrow> (\<exists>p q. s = p @ q \<and> p \<in> lang U r)"
proof (induction s arbitrary: r)
  case Nil
  show ?case by (simp add: nullable_lang [of _ U])
next
  case (Cons c cs)
  have "(\<exists>p q. c # cs = p @ q \<and> p \<in> lang U r) \<longleftrightarrow>
        [] \<in> lang U r \<or> (\<exists>p q. cs = p @ q \<and> c # p \<in> lang U r)"
    by (auto simp: Cons_eq_append_conv)
  then show ?case by (simp add: Cons.IH nullable_lang [of _ U] deriv_lang)
qed

lemma plus_digit_lang: "w \<in> plus_lang {[c] | c. isdecimal U c} \<longleftrightarrow> spec_digits U w"
proof
  assume "w \<in> plus_lang {[c] | c. isdecimal U c}"
  then show "spec_digits U w"
    by (induction rule: plus_lang.induct) (auto simp: spec_digits_def)
next
  assume "spec_digits U w"
  then have "w \<noteq> []" and "list_all (isdecimal U) w" by (simp_all add: spec_digits_def)
  then show "w \<in> plus_lang {[c] | c. isdecimal U c}"
  proof (induction w)
    case Nil
    then show ?case by simp
  next
    case (Cons c w)
    then have c: "[c] \<in> {[c] | c. isdecimal U c}" by simp
    show ?case
    proof (cases w)
      case Nil
      with c show ?thesis by (simp add: plus_lang.one)
    next
      case (Cons d w')
      with Cons.IH Cons.prems have "w \<in> plus_lang {[c] | c. isdecimal U c}" by simp
      from plus_lang.more [OF c this] show ?thesis by simp
    qed
  qed
qed

lemma lang_digits: "w \<in> lang U (Plus Digit) \<longleftrightarrow> spec_digits U w"
  by (simp add: plus_digit_lang)

lemma lang_opt_space: "sp \<in> lang U (Opt Space) \<longleftrightarrow> spec_optional_space U sp"
  by (auto simp: spec_optional_space_def)

lemma lang_lits: "lang U (lits s) = {ascii s}"
  by (induction s) (auto simp: lits_def ascii_def)

lemma lang_Seq_iff: "w \<in> lang U (Seq r s) \<longleftrightarrow> (\<exists>u v. w = u @ v \<and> u \<in> lang U r \<and> v \<in> lang U s)"
  by auto

lemma lang_gas:
  "g \<in> lang U (Alt (Seq (lits ''co2'') (Opt (Lit 101)))
        (Seq (lits ''co'') (Seq (Lit 8322) (Opt (Lit 101))))) \<longleftrightarrow>
   g \<in> {ascii ''co2'', ascii ''co2e'', ascii ''co'' @ [8322], ascii ''co'' @ [8322, 101]}"
proof -
  have e: "ascii ''co2e'' = ascii ''co2'' @ [101]" by (simp add: ascii_def)
  show ?thesis
    unfolding lang.simps(8) Un_iff lang_Seq_iff lang_lits e
    by auto
qed

lemma lang_co2:
  "s \<in> lang U co2_pattern \<longleftrightarrow>
     (\<exists>ds sp1 sp2 gas. s = ds @ sp1 @ ascii ''kg'' @ sp2 @ gas \<and>
        spec_digits U ds \<and> spec_optional_space U sp1 \<and> spec_optional_space U sp2 \<and>
        gas \<in> {ascii ''co2'', ascii ''co2e'', ascii ''co'' @ [8322], ascii ''co'' @ [8322, 101]})"
  unfolding co2_pattern_def lang_Seq_iff [of _ U "Plus Digit"] lang_Seq_iff [of _ U "Opt Space"]
    lang_Seq_iff [of _ U "lits ''kg''"] lang_gas lang_digits lang_opt_space lang_lits
  by blast

lemma lang_OneOf_Seq:
  "w \<in> lang U (Seq (OneOf cs) r) \<longleftrightarrow> (\<exists>c v. w = c # v \<and> c \<in> set cs \<and> v \<in> lang U r)"
proof
  assume "w \<in> lang U (Seq (OneOf cs) r)"
  then show "\<exists>c v. w = c # v \<and> c \<in> set cs \<and> v \<in> lang U r" by auto
next
  assume "\<exists>c v. w = c # v \<and> c \<in> set cs \<and> v \<in> lang U r"
  then obtain c v where w: "w = c # v" and c: "c \<in> set cs" and v: "v \<in> lang U r" by blast
  from c have "[c] \<in> lang U (OneOf cs)" by simp
  from lang_SeqI [OF this v] show "w \<in> lang U (Seq (OneOf cs) r)" using w by simp
qed

lemma lang_price:
  "p \<in> lang U price_pattern \<longleftrightarrow>
     (\<exists>sym sp ds. p = sym # sp @ ds \<and> sym \<in> {163, 36, 8364} \<and>
        spec_optional_space U sp \<and> spec_digits U ds)"
proof -
  have "p \<in> lang U price_pattern \<longleftrightarrow>
      (\<exists>c v. p = c # v \<and> c \<in> set [163, 36, 8364] \<and>
         (\<exists>sp ds. v = sp @ ds \<and> spec_optional_space U sp \<and> spec_digits U ds))"
    unfolding price_pattern_def lang_OneOf_Seq lang_Seq_iff [of _ U "Opt Space"]
      lang_digits lang_opt_space ..
  also have "\<dots> \<longleftrightarrow> (\<exists>sym sp ds. p = sym # sp @ ds \<and> sym \<in> set [163, 36, 8364] \<and>
        spec_optional_space U sp \<and> spec_digits U ds)"
    by blast
  finally show ?thesis by simp
qed

lemma strip_last: "strip U x \<noteq> [] \<Longrightarrow> \<not> isspace U (last (strip U x))"
proof -
  let ?ys = "dropWhile (isspace U) (rev (dropWhile (isspace U) x))"
  assume "strip U x \<noteq> []"
  then have ne: "?ys \<noteq> []" by (simp add: strip_def)
  then have "\<not> isspace U (hd ?ys)" by (rule hd_dropWhile)
  moreover have "last (strip U x) = hd ?ys" using ne by (simp add: strip_def last_rev)
  ultimately show ?thesis by simp
qed

lemma co2_valid_strip:
  assumes "isspace U 10" and "lower_keeps_end U"
  shows "co2_valid U (strip U x) \<longleftrightarrow> lower U (strip U x) \<in> lang U co2_pattern"
proof -
  have n: "\<not> (lower U (strip U x) \<noteq> [] \<and> last (lower U (strip U x)) = 10)"
  proof
    assume a: "lower U (strip U x) \<noteq> [] \<and> last (lower U (strip U x)) = 10"
    from assms(2) have "lower U (strip U x) \<noteq> [] \<and> last (lower U (strip U x)) = 10 \<longrightarrow>
        strip U x \<noteq> [] \<and> last (strip U x) = 10"
      unfolding lower_keeps_end_def by (rule spec)
    with a have "strip U x \<noteq> []" and "last (strip U x) = 10" by simp_all
    with strip_last [of U x] assms(1) show False by simp
  qed
  have "co2_valid U (strip U x) \<longleftrightarrow>
      (lower U (strip U x) \<in> lang U co2_pattern \<or>
       (lower U (strip U x) \<noteq> [] \<and> last (lower U (strip U x)) = 10 \<and>
        butlast (lower U (strip U x)) \<in> lang U co2_pattern))"
    by (simp only: co2_valid_def rx_match_to_end_def rx_match_all_lang)
  with n show ?thesis by blast
qed

lemma price_valid_spec: "price_valid U p \<longleftrightarrow> spec_price_text U p"
proof -
  have "price_valid U p \<longleftrightarrow> (\<exists>q rest. p = q @ rest \<and> q \<in> lang U price_pattern)"
    by (simp only: price_valid_def rx_match_prefix_lang)
  also have "\<dots> \<longleftrightarrow> (\<exists>q rest. p = q @ rest \<and> (\<exists>sym sp ds. q = sym # sp @ ds \<and> sym \<in> {163, 36, 8364} \<and>
        spec_optional_space U sp \<and> spec_digits U ds))"
    by (simp only: lang_price)
  also have "\<dots> \<longleftrightarrow> (\<exists>sym sp ds rest. p = (sym # sp @ ds) @ rest \<and> sym \<in> {163, 36, 8364} \<and>
        spec_optional_space U sp \<and> spec_digits U ds)"
    by blast
  also have "\<dots> \<longleftrightarrow> spec_price_text U p"
    by (simp only: spec_price_text_def append_Cons append_assoc)
  finally show ?thesis .
qed

lemma validate_flights_filter:
  "validate_flights U all_flights =
     map (stored U) (filter (flight_valid U) (map (\<lambda>(i, container, flight). flight) all_flights))"
  by (induction U all_flights rule: validate_flights.induct) simp_all

text \<open>
  Claim C5. Provided the line feed is white space and lower-casing keeps the end of a
  text, a flight is accepted exactly when its stripped emissions text, lower-cased, is
  digits, an optional space, \<open>kg\<close>, an optional space and one of \<open>co2\<close>, \<open>co2e\<close>,
  \<open>co\<^sub>2\<close>, \<open>co\<^sub>2e\<close>, and its stripped price text starts with a pound, dollar or euro
  sign, an optional space and digits. The flights returned are the accepted ones, in
  order, each stored with its stripped texts: a flight that fails either test is not
  among them.
\<close>

theorem validation_gate:
  assumes "isspace U 10" and "lower_keeps_end U"
  shows "(flight_valid U flight \<longleftrightarrow>
            spec_co2_text U (strip U (get flight ''CO2 Emissions'' [])) \<and>
            spec_price_text U (strip U (get flight ''Price'' []))) \<and>
         validate_flights U all_flights =
           map (stored U) (filter (flight_valid U) (map (\<lambda>(i, container, flight). flight) all_flights))"
proof -
  have "co2_valid U (strip U (get flight ''CO2 Emissions'' [])) \<longleftrightarrow>
        spec_co2_text U (strip U (get flight ''CO2 Emissions'' []))"
    unfolding co2_valid_strip [OF assms] lang_co2 spec_co2_text_def ..
  then have "flight_valid U flight \<longleftrightarrow>
            spec_co2_text U (strip U (get flight ''CO2 Emissions'' [])) \<and>
            spec_price_text U (strip U (get flight ''Price'' []))"
    by (simp only: flight_valid_def Let_def price_valid_spec)
  with validate_flights_filter show ?thesis by blast
qed

lemma isspace_ascii_10: "isspace ascii_tables 10"
  by (simp add: ascii_tables_def)

lemma lower_keeps_end_ascii: "lower_keeps_end ascii_tables"
proof -
  have "\<And>s. map (\<lambda>c. if 65 \<le> c \<and> c \<le> 90 then c + 32 else c) s \<noteq> [] \<and>
            last (map (\<lambda>c. if 65 \<le> c \<and> c \<le> 90 then c + 32 else c) s) = (10::nat) \<longrightarrow>
            s \<noteq> [] \<and> last s = 10"
    by (auto simp: last_map split: if_splits)
  then show ?thesis by (simp add: lower_keeps_end_def ascii_tables_def)
qed

lemma ex_raw_fields:
  "strip ascii_tables (get ex_raw ''CO2 Emissions'' []) = ascii ''120 kg CO'' @ [8322, 101]"
  "strip ascii_tables (get ex_raw ''Price'' []) = 163 # ascii ''245''"
  by (simp_all add: ex_raw_def get_def strip_def ascii_tables_def ascii_def)

lemma ex_raw_valid: "flight_valid ascii_tables ex_raw"
  unfolding flight_valid_def Let_def ex_raw_fields
  by (simp add: co2_valid_def price_valid_def rx_match_to_end_def co2_pattern_def price_pattern_def
      lits_def ascii_def ascii_tables_def)

lemma ex_banner_invalid: "\<not> flight_valid ascii_tables ex_banner"
  by (simp add: flight_valid_def Let_def ex_banner_def get_def strip_def
      co2_valid_def price_valid_def rx_match_to_end_def co2_pattern_def price_pattern_def
      lits_def ascii_def ascii_tables_def)

text \<open>
  C5 on an offer with untrimmed, mixed-case texts, which is accepted, and a banner without
  emissions or currency sign, which is dropped.
\<close>

theorem validation_gate_witness:
  "isspace ascii_tables 10 \<and> lower_keeps_end ascii_tables \<and>
   flight_valid ascii_tables ex_raw \<and>
   spec_co2_text ascii_tables (strip ascii_tables (get ex_raw ''CO2 Emissions'' [])) \<and>
   spec_price_text ascii_tables (strip ascii_tables (get ex_raw ''Price'' [])) \<and>
   \<not> flight_valid ascii_tables ex_banner \<and>
   validate_flights ascii_tables [(1, 0 :: nat, ex_raw), (2, 1, ex_banner)] =
     [stored ascii_tables ex_raw]"
proof -
  note g = validation_gate [OF isspace_ascii_10 lower_keeps_end_ascii,
      of ex_raw "[(1, 0 :: nat, ex_raw), (2, 1, ex_banner)]"]
  from g ex_raw_valid
  have "spec_co2_text ascii_tables (strip ascii_tables (get ex_raw ''CO2 Emissions'' []))"
    and "spec_price_text ascii_tables (strip ascii_tables (get ex_raw ''Price'' []))"
    by blast+
  moreover from g ex_raw_valid ex_banner_invalid
  have "validate_flights ascii_tables [(1, 0 :: nat, ex_raw), (2, 1, ex_banner)] =
     [stored ascii_tables ex_raw]" by simp
  ultimately show ?thesis
    using isspace_ascii_10 lower_keeps_end_ascii ex_raw_valid ex_banner_invalid by blast
qed

section \<open>Identity key: proofs\<close>









section \<open>Date conversion: proofs\<close>













section \<open>Ranking: proofs\<close>

text \<open>
  Whatever routine sorts, as long as it returns the rows in ascending order of the minimum
  price: the ranked frame holds the rows of the frame, in ascending order of their
  minimum price, and no row with an amount comes after a row without one.
\<close>

lemma rank_frame_mset:
  assumes "sorts_ascending srt"
  shows "mset (rank_frame U srt df) = mset df"
proof -
  let ?xs = "map (\<lambda>(idx, r). (get_min_price U r, idx, r)) df"
  from assms have "mset (srt ?xs) = mset ?xs" by (simp add: sorts_ascending_def)
  then have "image_mset snd (mset (srt ?xs)) = image_mset snd (mset ?xs)" by (rule arg_cong)
  then have a: "mset (map snd (srt ?xs)) = mset (map snd ?xs)" by (simp only: mset_map)
  have b: "map snd ?xs = df" by (induction df) auto
  show ?thesis unfolding rank_frame_def a b ..
qed

lemma rank_frame_sorted:
  assumes "sorts_ascending srt"
  shows "sorted_wrt (\<lambda>a b. price_le (get_min_price U (snd a)) (get_min_price U (snd b)))
           (rank_frame U srt df)"
proof -
  let ?xs = "map (\<lambda>(idx, r). (get_min_price U r, idx, r)) df"
  from assms have m: "mset (srt ?xs) = mset ?xs"
    and s: "sorted_wrt (\<lambda>a b. price_le (fst a) (fst b)) (srt ?xs)"
    by (simp_all add: sorts_ascending_def)
  from m have "set_mset (mset (srt ?xs)) = set_mset (mset ?xs)" by (rule arg_cong)
  then have "set (srt ?xs) = set ?xs" by (simp only: set_mset_mset)
  then have k: "\<And>a. a \<in> set (srt ?xs) \<Longrightarrow> fst a = get_min_price U (snd (snd a))" by auto
  have "sorted_wrt (\<lambda>a b. price_le (get_min_price U (snd (snd a))) (get_min_price U (snd (snd b))))
          (srt ?xs)"
    by (rule sorted_wrt_mono_rel [OF _ s]) (simp add: k)
  then show ?thesis by (simp add: rank_frame_def sorted_wrt_map)
qed

lemma infinite_prices_last:
  assumes "sorts_ascending srt" and "i < j" and "j < length (rank_frame U srt df)"
    and "get_min_price U (snd (rank_frame U srt df ! i)) = None"
  shows "get_min_price U (snd (rank_frame U srt df ! j)) = None"
proof -
  from rank_frame_sorted [OF assms(1), of U df] assms(2,3)
  have "price_le (get_min_price U (snd (rank_frame U srt df ! i)))
                 (get_min_price U (snd (rank_frame U srt df ! j)))"
    by (simp add: sorted_wrt_iff_nth_less)
  with assms(4) show ?thesis
    by (cases "get_min_price U (snd (rank_frame U srt df ! j))") simp_all
qed


end
